theory Spec2Isabelle
  imports Main
begin

section \<open>Keyboard selection helpers (app/src/lib/utils/selection.ts)\<close>

subsection \<open>Files and the adjacent-file lookups\<close>

text \<open>
  \<open>AnyFile\<close> is used through its \<open>id\<close> field only; every other field of a file lives in
  the extension part of the record scheme. (\<open>id\<close> is a HOL constant, hence \<open>id'\<close>.)
\<close>

record AnyFile =
  id' :: string

text \<open>
  JavaScript's \<open>Array.prototype.findIndex\<close>: the index of the first element that
  satisfies the predicate, \<open>-1\<close> when there is none.
\<close>

fun findIndex :: "('a \<Rightarrow> bool) \<Rightarrow> 'a list \<Rightarrow> int" where
  "findIndex p [] = - 1"
| "findIndex p (x # xs) =
     (if p x then 0
      else (let i = findIndex p xs in if i = - 1 then - 1 else i + 1))"

definition getNextFile :: "'a AnyFile_scheme list \<Rightarrow> string \<Rightarrow> 'a AnyFile_scheme option" where
  "getNextFile files currentId =
     (let fileIndex = findIndex (\<lambda>f. id' f = currentId) files
      in if fileIndex \<noteq> - 1 \<and> fileIndex + 1 < int (length files)
         then Some (files ! nat (fileIndex + 1))
         else None)"

definition getPreviousFile :: "'a AnyFile_scheme list \<Rightarrow> string \<Rightarrow> 'a AnyFile_scheme option" where
  "getPreviousFile files currentId =
     (let fileIndex = findIndex (\<lambda>f. id' f = currentId) files
      in if fileIndex > 0 then Some (files ! nat (fileIndex - 1)) else None)"

subsection \<open>The collaborators of the navigator\<close>

text \<open>
  A DOM element is known by a handle; \<open>targetElement\<close> is read for its two sibling
  links only, each of which may be null.
\<close>

type_synonym element = nat

record HTMLElement =
  previousElementSibling :: "element option"
  nextElementSibling :: "element option"

datatype direction = Up | Down | NoDirection

text \<open>
  Every call that \<open>maybeMoveSelection\<close> makes on the selection manager or on a DOM element,
  with the file identifier or element it is made on.
\<close>

datatype call = Add string | Remove string | Clear | Focus element

text \<open>
  The state a call works on: the sequence held by the selection manager
  (\<open>fileIdSelection\<close>), the element that has focus, the calls made so far in the order
  they were made, and the local variable \<open>selectionDirection\<close> of \<open>maybeMoveSelection\<close>.
\<close>

record state =
  fileIdSelection :: "string list"
  focused :: "element option"
  calls :: "call list"
  selectionDirection :: direction

text \<open>
  Modelled from the spec: \<open>getSelectionDirection\<close> (module \<open>./getSelectionDirection\<close>) is
  imported by selection.ts and is not part of the sources. The spec: the direction is
  \<open>down\<close> if the last-selected identifier's list position is greater than the
  first-selected identifier's, \<open>up\<close> if it is less, \<open>none\<close> if they are equal. The call
  site passes the position of the last-selected identifier first.
\<close>

definition getSelectionDirection :: "int \<Rightarrow> int \<Rightarrow> direction" where
  "getSelectionDirection lastPosition firstPosition =
     (if lastPosition > firstPosition then Down
      else if lastPosition < firstPosition then Up
      else NoDirection)"

text \<open>
  Modelled from the spec: the class \<open>FileIdSelection\<close> (module
  \<open>$lib/vbranches/fileIdSelection\<close>) is not part of the sources. The spec: the selection
  is an ordered sequence of stringified file identifiers whose order is the selection
  history (the last-selected identifier is at position length - 1), mutated only through
  \<open>add(id)\<close>, \<open>remove(id)\<close> and \<open>clear()\<close>.

  \<open>stringifyFileKey\<close> and \<open>unstringifyFileKey\<close> of the same module are not part of the
  sources either, and the spec does not say how an identifier is stringified; they are
  parameters of every definition that uses them.
\<close>

definition FileIdSelection_add :: "(string \<Rightarrow> string) \<Rightarrow> string \<Rightarrow> state \<Rightarrow> state" where
  "FileIdSelection_add stringifyFileKey fileId s =
     s\<lparr>fileIdSelection := fileIdSelection s @ [stringifyFileKey fileId],
       calls := calls s @ [Add fileId]\<rparr>"

definition FileIdSelection_remove :: "(string \<Rightarrow> string) \<Rightarrow> string \<Rightarrow> state \<Rightarrow> state" where
  "FileIdSelection_remove stringifyFileKey fileId s =
     s\<lparr>fileIdSelection := filter (\<lambda>k. k \<noteq> stringifyFileKey fileId) (fileIdSelection s),
       calls := calls s @ [Remove fileId]\<rparr>"

definition FileIdSelection_clear :: "state \<Rightarrow> state" where
  "FileIdSelection_clear s = s\<lparr>fileIdSelection := [], calls := calls s @ [Clear]\<rparr>"

text \<open>\<open>element.focus()\<close>: the element receives focus.\<close>

definition HTMLElement_focus :: "element \<Rightarrow> state \<Rightarrow> state" where
  "HTMLElement_focus e s = s\<lparr>focused := Some e, calls := calls s @ [Focus e]\<rparr>"

subsection \<open>maybeMoveSelection\<close>

text \<open>
  The two local functions of \<open>maybeMoveSelection\<close>; what they capture from the enclosing
  call (\<open>files\<close>, \<open>selectedFileIds\<close>, the selection manager) is passed explicitly.
  \<open>selectedFileIds\<close> is the array the caller passed in: it is read, never written.
\<close>

definition getAndAddFile ::
  "(string \<Rightarrow> string) \<Rightarrow> 'a AnyFile_scheme list \<Rightarrow> string list \<Rightarrow>
   ('a AnyFile_scheme list \<Rightarrow> string \<Rightarrow> 'a AnyFile_scheme option) \<Rightarrow> string \<Rightarrow> state \<Rightarrow> state" where
  "getAndAddFile stringifyFileKey files selectedFileIds getFileFunc fileId s =
     (case getFileFunc files fileId of
        Some file \<Rightarrow>
          if stringifyFileKey (id' file) \<in> set selectedFileIds then s
          else FileIdSelection_add stringifyFileKey (id' file) s
      | None \<Rightarrow> s)"

definition getAndClearAndAddFile ::
  "(string \<Rightarrow> string) \<Rightarrow> 'a AnyFile_scheme list \<Rightarrow>
   ('a AnyFile_scheme list \<Rightarrow> string \<Rightarrow> 'a AnyFile_scheme option) \<Rightarrow> string \<Rightarrow> state \<Rightarrow> state" where
  "getAndClearAndAddFile stringifyFileKey files getFileFunc fileId s =
     (case getFileFunc files fileId of
        Some file \<Rightarrow> FileIdSelection_add stringifyFileKey (id' file) (FileIdSelection_clear s)
      | None \<Rightarrow> s)"

definition maybeMoveSelection ::
  "(string \<Rightarrow> string) \<Rightarrow> (string \<Rightarrow> string) \<Rightarrow> bool \<Rightarrow> bool \<Rightarrow> string \<Rightarrow> HTMLElement \<Rightarrow>
   'a AnyFile_scheme \<Rightarrow> 'a AnyFile_scheme list \<Rightarrow> string list \<Rightarrow> state \<Rightarrow> state" where
  "maybeMoveSelection stringifyFileKey unstringifyFileKey allowMultiple shiftKey key
       targetElement file files selectedFileIds s =
     (if length selectedFileIds = 0 then s
      else
        let firstFileId = unstringifyFileKey (selectedFileIds ! 0);
            lastFileId = unstringifyFileKey (selectedFileIds ! (length selectedFileIds - 1));
            s1 = s\<lparr>selectionDirection :=
                     getSelectionDirection
                       (findIndex (\<lambda>f. id' f = lastFileId) files)
                       (findIndex (\<lambda>f. id' f = firstFileId) files)\<rparr>
        in
        if key = ''ArrowUp'' then
          (if shiftKey \<and> allowMultiple then
             let s2 = (if length selectedFileIds = 1 then s1\<lparr>selectionDirection := Up\<rparr>
                       else if selectionDirection s1 = Down
                       then FileIdSelection_remove stringifyFileKey lastFileId s1
                       else s1)
             in getAndAddFile stringifyFileKey files selectedFileIds getPreviousFile lastFileId s2
           else
             let s2 = (case previousElementSibling targetElement of
                         Some previousElement \<Rightarrow> HTMLElement_focus previousElement s1
                       | None \<Rightarrow> s1)
             in if length selectedFileIds > 1
                then getAndClearAndAddFile stringifyFileKey files getPreviousFile lastFileId s2
                else getAndClearAndAddFile stringifyFileKey files getPreviousFile (id' file) s2)
        else if key = ''ArrowDown'' then
          (if shiftKey \<and> allowMultiple then
             let s2 = (if length selectedFileIds = 1 then s1\<lparr>selectionDirection := Down\<rparr>
                       else if selectionDirection s1 = Up
                       then FileIdSelection_remove stringifyFileKey lastFileId s1
                       else s1)
             in getAndAddFile stringifyFileKey files selectedFileIds getNextFile lastFileId s2
           else
             let s2 = (case nextElementSibling targetElement of
                         Some nextElement \<Rightarrow> HTMLElement_focus nextElement s1
                       | None \<Rightarrow> s1)
             in if length selectedFileIds > 1
                then getAndClearAndAddFile stringifyFileKey files getNextFile lastFileId s2
                else getAndClearAndAddFile stringifyFileKey files getNextFile (id' file) s2)
        else s1)"

text \<open>The calls a run has added to the log of the state it started from.\<close>

definition newCalls :: "state \<Rightarrow> state \<Rightarrow> call list" where
  "newCalls s s' = drop (length (calls s)) (calls s')"

text \<open>
  A predicate on such a log: every \<open>clear()\<close> in it is immediately followed by an
  \<open>add\<close> of one of the given identifiers.
\<close>

fun clearOnlyBeforeAdd :: "string list \<Rightarrow> call list \<Rightarrow> bool" where
  "clearOnlyBeforeAdd ids [] = True"
| "clearOnlyBeforeAdd ids (Clear # Add x # cs) = (x \<in> set ids \<and> clearOnlyBeforeAdd ids cs)"
| "clearOnlyBeforeAdd ids (Clear # cs) = False"
| "clearOnlyBeforeAdd ids (c # cs) = clearOnlyBeforeAdd ids cs"

subsection \<open>Concrete inputs\<close>

text \<open>
  The file list \<open>[A, B, C, D]\<close> of the spec's examples, a focused element with both
  siblings, and a state whose selection manager holds the given keys and on which no
  call has been made yet. Where an example needs a stringification and its decoder,
  the identity is used for both: the key of an identifier is the identifier.
\<close>

definition exampleFiles :: "AnyFile list" where
  "exampleFiles = [\<lparr>id' = ''A''\<rparr>, \<lparr>id' = ''B''\<rparr>, \<lparr>id' = ''C''\<rparr>, \<lparr>id' = ''D''\<rparr>]"

definition exampleTarget :: HTMLElement where
  "exampleTarget = \<lparr>previousElementSibling = Some 1, nextElementSibling = Some 3\<rparr>"

definition exampleState :: "string list \<Rightarrow> state" where
  "exampleState keys =
     \<lparr>fileIdSelection = keys, focused = Some 2, calls = [], selectionDirection = NoDirection\<rparr>"

section \<open>Properties\<close>

subsection \<open>findIndex and the adjacent-file lookups\<close>

lemma findIndex_bounds: "- 1 \<le> findIndex p xs \<and> findIndex p xs < int (length xs)"
  by (induction xs) (auto simp: Let_def)

lemma findIndex_absent: "(\<forall>x\<in>set xs. \<not> p x) \<Longrightarrow> findIndex p xs = - 1"
  by (induction xs) (auto simp: Let_def)

lemma findIndex_first:
  "i < length xs \<Longrightarrow> p (xs ! i) \<Longrightarrow> (\<forall>j<i. \<not> p (xs ! j)) \<Longrightarrow> findIndex p xs = int i"
proof (induction xs arbitrary: i)
  case Nil
  then show ?case by simp
next
  case (Cons x xs)
  show ?case
  proof (cases i)
    case 0
    with Cons.prems show ?thesis by simp
  next
    case (Suc k)
    from Cons.prems Suc have npx: "\<not> p x" by auto
    have "\<forall>j<k. \<not> p (xs ! j)"
    proof (intro allI impI)
      fix j assume "j < k"
      then have "Suc j < i" using Suc by simp
      with Cons.prems(3) have "\<not> p ((x # xs) ! Suc j)" by blast
      then show "\<not> p (xs ! j)" by simp
    qed
    moreover from Cons.prems Suc have "k < length xs" "p (xs ! k)" by auto
    ultimately have "findIndex p xs = int k" using Cons.IH by blast
    with npx Suc show ?thesis by (simp add: Let_def)
  qed
qed

lemma findIndex_found:
  "0 \<le> findIndex p xs \<Longrightarrow>
   nat (findIndex p xs) < length xs \<and> p (xs ! nat (findIndex p xs)) \<and>
   (\<forall>j < nat (findIndex p xs). \<not> p (xs ! j))"
proof (induction xs)
  case Nil
  then show ?case by simp
next
  case (Cons x xs)
  show ?case
  proof (cases "p x")
    case True
    then show ?thesis by simp
  next
    case False
    with Cons.prems have nn: "findIndex p xs \<noteq> - 1" and ge: "0 \<le> findIndex p xs"
      using findIndex_bounds [of p xs] by (auto simp: Let_def split: if_splits)
    from False nn have eq: "findIndex p (x # xs) = findIndex p xs + 1" by (simp add: Let_def)
    have n: "nat (findIndex p xs + 1) = Suc (nat (findIndex p xs))" using ge by simp
    from Cons.IH [OF ge] False show ?thesis
      unfolding eq n by (auto simp: less_Suc_eq_0_disj)
  qed
qed

lemma getNextFile_mem: "getNextFile files c = Some f \<Longrightarrow> f \<in> set files"
  using findIndex_bounds [of "\<lambda>f. id' f = c" files]
  by (auto simp: getNextFile_def Let_def split: if_splits)

lemma getPreviousFile_mem: "getPreviousFile files c = Some f \<Longrightarrow> f \<in> set files"
  using findIndex_bounds [of "\<lambda>f. id' f = c" files]
  by (auto simp: getPreviousFile_def Let_def split: if_splits)

lemma getNextFile_absent: "\<forall>f\<in>set files. id' f \<noteq> c \<Longrightarrow> getNextFile files c = None"
  using findIndex_absent [of files "\<lambda>f. id' f = c"] by (simp add: getNextFile_def)

lemma getPreviousFile_absent: "\<forall>f\<in>set files. id' f \<noteq> c \<Longrightarrow> getPreviousFile files c = None"
  using findIndex_absent [of files "\<lambda>f. id' f = c"] by (simp add: getPreviousFile_def)

lemma getPreviousFile_other: "getPreviousFile files c = Some f \<Longrightarrow> id' f \<noteq> c"
proof -
  assume a: "getPreviousFile files c = Some f"
  let ?i = "findIndex (\<lambda>f. id' f = c) files"
  from a have pos: "0 < ?i" and f: "f = files ! nat (?i - 1)"
    by (auto simp: getPreviousFile_def Let_def split: if_splits)
  from pos have "nat (?i - 1) < nat ?i" by simp
  with findIndex_found [of "\<lambda>f. id' f = c" files] pos f show ?thesis by auto
qed

lemma getNextFile_at:
  assumes "i < length files" and "id' (files ! i) = c" and "\<forall>j<i. id' (files ! j) \<noteq> c"
  shows "getNextFile files c = (if i + 1 < length files then Some (files ! (i + 1)) else None)"
proof -
  have "findIndex (\<lambda>f. id' f = c) files = int i"
    using assms by (intro findIndex_first) auto
  moreover have "nat (int i + 1) = i + 1" by simp
  ultimately show ?thesis by (simp add: getNextFile_def)
qed

lemma getPreviousFile_at:
  assumes "i < length files" and "id' (files ! i) = c" and "\<forall>j<i. id' (files ! j) \<noteq> c"
  shows "getPreviousFile files c = (if 0 < i then Some (files ! (i - 1)) else None)"
proof -
  have "findIndex (\<lambda>f. id' f = c) files = int i"
    using assms by (intro findIndex_first) auto
  moreover have "nat (int i - 1) = i - 1" by simp
  ultimately show ?thesis by (simp add: getPreviousFile_def)
qed

lemma roundtrip_inj: "\<forall>x. uk (sk x) = x \<Longrightarrow> sk a = sk b \<Longrightarrow> a = b"
  by metis

lemmas navigator_defs =
  maybeMoveSelection_def getAndAddFile_def getAndClearAndAddFile_def
  FileIdSelection_add_def FileIdSelection_remove_def FileIdSelection_clear_def
  HTMLElement_focus_def newCalls_def

lemmas example_defs = exampleFiles_def exampleTarget_def exampleState_def

lemma getAndAddFile_cases:
  "getAndAddFile sk files sel g c s = s \<or>
   (\<exists>f. g files c = Some f \<and> sk (id' f) \<notin> set sel \<and>
        getAndAddFile sk files sel g c s = FileIdSelection_add sk (id' f) s)"
  by (auto simp: getAndAddFile_def split: option.splits)

lemma getAndClearAndAddFile_cases:
  "(g files c = None \<and> getAndClearAndAddFile sk files g c s = s) \<or>
   (\<exists>f. g files c = Some f \<and>
        getAndClearAndAddFile sk files g c s =
          FileIdSelection_add sk (id' f) (FileIdSelection_clear s))"
  by (auto simp: getAndClearAndAddFile_def split: option.splits)

lemma maybeMoveSelection_reverse:
  assumes "shiftKey" and "allowMultiple" and "1 < length selectedFileIds"
    and "getSelectionDirection
           (findIndex (\<lambda>f. id' f = unstringifyFileKey (last selectedFileIds)) files)
           (findIndex (\<lambda>f. id' f = unstringifyFileKey (hd selectedFileIds)) files) = dir"
    and "key = ''ArrowUp'' \<and> dir = Down \<or> key = ''ArrowDown'' \<and> dir = Up"
  shows "maybeMoveSelection stringifyFileKey unstringifyFileKey allowMultiple shiftKey key
           targetElement focusedFile files selectedFileIds s =
         getAndAddFile stringifyFileKey files selectedFileIds
           (if key = ''ArrowUp'' then getPreviousFile else getNextFile)
           (unstringifyFileKey (last selectedFileIds))
           (FileIdSelection_remove stringifyFileKey (unstringifyFileKey (last selectedFileIds))
              (s\<lparr>selectionDirection := dir\<rparr>))"
proof -
  from assms(3) have ne: "selectedFileIds \<noteq> []" by auto
  then have l: "selectedFileIds ! (length selectedFileIds - Suc 0) = last selectedFileIds"
    and h: "selectedFileIds ! 0 = hd selectedFileIds"
    by (simp_all add: last_conv_nth hd_conv_nth)
  from assms(5) show ?thesis
    using assms(1-4) ne by (auto simp: maybeMoveSelection_def Let_def l h)
qed

subsection \<open>What a call does, branch by branch\<close>

lemma maybeMoveSelection_extend:
  assumes "sel \<noteq> []" and "shiftKey" and "allowMultiple"
    and "key = ''ArrowUp'' \<or> key = ''ArrowDown''"
  shows "\<exists>d. maybeMoveSelection sk uk allowMultiple shiftKey key targetElement focusedFile files sel s =
               getAndAddFile sk files sel
                 (if key = ''ArrowUp'' then getPreviousFile else getNextFile) (uk (last sel))
                 (s\<lparr>selectionDirection := d\<rparr>) \<or>
             (1 < length sel \<and> d \<noteq> NoDirection \<and>
              d = getSelectionDirection (findIndex (\<lambda>f. id' f = uk (last sel)) files)
                    (findIndex (\<lambda>f. id' f = uk (hd sel)) files) \<and>
              maybeMoveSelection sk uk allowMultiple shiftKey key targetElement focusedFile files sel s =
                getAndAddFile sk files sel
                  (if key = ''ArrowUp'' then getPreviousFile else getNextFile) (uk (last sel))
                  (FileIdSelection_remove sk (uk (last sel)) (s\<lparr>selectionDirection := d\<rparr>)))"
proof -
  from assms(1) have l: "sel ! (length sel - Suc 0) = last sel" and h: "sel ! 0 = hd sel"
    by (simp_all add: last_conv_nth hd_conv_nth)
  let ?d = "getSelectionDirection (findIndex (\<lambda>f. id' f = uk (last sel)) files)
              (findIndex (\<lambda>f. id' f = uk (hd sel)) files)"
  from assms(1) have len: "length sel = 1 \<or> 1 < length sel"
    by (cases sel) auto
  from assms(4) show ?thesis
  proof
    assume k: "key = ''ArrowUp''"
    from len show ?thesis
    proof
      assume one: "length sel = 1"
      then have "hd sel = last sel" by (cases sel) auto
      with one show ?thesis using assms(1-3) k
        by (intro exI [of _ Up] disjI1) (simp add: maybeMoveSelection_def Let_def l h)
    next
      assume gt: "1 < length sel"
      show ?thesis
      proof (cases "?d = Down")
        case True
        then show ?thesis using assms(1-3) k gt
          by (intro exI [of _ Down] disjI2) (simp add: maybeMoveSelection_def Let_def l h)
      next
        case False
        then show ?thesis using assms(1-3) k gt
          by (intro exI [of _ ?d] disjI1) (simp add: maybeMoveSelection_def Let_def l h)
      qed
    qed
  next
    assume k: "key = ''ArrowDown''"
    from len show ?thesis
    proof
      assume one: "length sel = 1"
      then have "hd sel = last sel" by (cases sel) auto
      with one show ?thesis using assms(1-3) k
        by (intro exI [of _ Down] disjI1) (simp add: maybeMoveSelection_def Let_def l h)
    next
      assume gt: "1 < length sel"
      show ?thesis
      proof (cases "?d = Up")
        case True
        then show ?thesis using assms(1-3) k gt
          by (intro exI [of _ Up] disjI2) (simp add: maybeMoveSelection_def Let_def l h)
      next
        case False
        then show ?thesis using assms(1-3) k gt
          by (intro exI [of _ ?d] disjI1) (simp add: maybeMoveSelection_def Let_def l h)
      qed
    qed
  qed
qed

lemma maybeMoveSelection_move:
  assumes "sel \<noteq> []" and "\<not> (shiftKey \<and> allowMultiple)"
    and "key = ''ArrowUp'' \<or> key = ''ArrowDown''"
  shows "\<exists>s2 F. (F = [] \<or> (\<exists>e. F = [Focus e])) \<and> calls s2 = calls s @ F \<and>
              fileIdSelection s2 = fileIdSelection s \<and>
              maybeMoveSelection sk uk allowMultiple shiftKey key targetElement focusedFile files sel s =
                getAndClearAndAddFile sk files
                  (if key = ''ArrowUp'' then getPreviousFile else getNextFile)
                  (if 1 < length sel then uk (last sel) else id' focusedFile) s2"
proof -
  from assms(1) have l: "sel ! (length sel - Suc 0) = last sel"
    by (simp add: last_conv_nth)
  let ?s1 = "s\<lparr>selectionDirection :=
                 getSelectionDirection (findIndex (\<lambda>f. id' f = uk (last sel)) files)
                   (findIndex (\<lambda>f. id' f = uk (sel ! 0)) files)\<rparr>"
  let ?sib = "if key = ''ArrowUp'' then previousElementSibling targetElement
              else nextElementSibling targetElement"
  let ?s2 = "case ?sib of Some e \<Rightarrow> HTMLElement_focus e ?s1 | None \<Rightarrow> ?s1"
  let ?F = "case ?sib of Some e \<Rightarrow> [Focus e] | None \<Rightarrow> []"
  have "?F = [] \<or> (\<exists>e. ?F = [Focus e])"
    by (simp split: option.splits)
  moreover have "calls ?s2 = calls s @ ?F"
    by (simp add: HTMLElement_focus_def split: option.splits)
  moreover have "fileIdSelection ?s2 = fileIdSelection s"
    by (simp add: HTMLElement_focus_def split: option.splits)
  moreover have "maybeMoveSelection sk uk allowMultiple shiftKey key targetElement focusedFile files sel s =
                getAndClearAndAddFile sk files
                  (if key = ''ArrowUp'' then getPreviousFile else getNextFile)
                  (if 1 < length sel then uk (last sel) else id' focusedFile) ?s2"
    using assms by (auto simp: maybeMoveSelection_def Let_def l)
  ultimately show ?thesis by blast
qed

lemma extend_effect:
  assumes "sel \<noteq> []" and "shiftKey" and "allowMultiple"
    and "key = ''ArrowUp'' \<or> key = ''ArrowDown''"
    and "s' = maybeMoveSelection sk uk allowMultiple shiftKey key targetElement focusedFile files sel s"
  shows "\<exists>R A.
           (R = [] \<or>
            R = [Remove (uk (last sel))] \<and> 1 < length sel \<and>
            getSelectionDirection (findIndex (\<lambda>f. id' f = uk (last sel)) files)
              (findIndex (\<lambda>f. id' f = uk (hd sel)) files) \<noteq> NoDirection) \<and>
           (A = [] \<or>
            (\<exists>f. (if key = ''ArrowUp'' then getPreviousFile else getNextFile) files (uk (last sel))
                   = Some f \<and>
                 sk (id' f) \<notin> set sel \<and> A = [id' f])) \<and>
           calls s' = calls s @ R @ map Add A \<and>
           fileIdSelection s' =
             (if R = [] then fileIdSelection s
              else filter (\<lambda>k. k \<noteq> sk (uk (last sel))) (fileIdSelection s)) @ map sk A"
proof -
  let ?g = "if key = ''ArrowUp'' then getPreviousFile else getNextFile"
  let ?l = "uk (last sel)"
  from maybeMoveSelection_extend [OF assms(1-4), where sk = sk and uk = uk and s = s
      and targetElement = targetElement and focusedFile = focusedFile and files = files]
  obtain d s2 R where s2: "s' = getAndAddFile sk files sel ?g ?l s2"
    and R: "R = [] \<or>
            R = [Remove ?l] \<and> 1 < length sel \<and>
            getSelectionDirection (findIndex (\<lambda>f. id' f = ?l) files)
              (findIndex (\<lambda>f. id' f = uk (hd sel)) files) \<noteq> NoDirection"
    and c2: "calls s2 = calls s @ R"
    and f2: "fileIdSelection s2 =
               (if R = [] then fileIdSelection s
                else filter (\<lambda>k. k \<noteq> sk ?l) (fileIdSelection s))"
  proof (elim exE disjE conjE)
    fix d
    assume "maybeMoveSelection sk uk allowMultiple shiftKey key targetElement focusedFile files sel s =
            getAndAddFile sk files sel ?g ?l (s\<lparr>selectionDirection := d\<rparr>)"
    then show thesis
      using that [of "s\<lparr>selectionDirection := d\<rparr>" "[]"] assms(5) by simp
  next
    fix d
    assume "1 < length sel" and "d \<noteq> NoDirection"
      and "d = getSelectionDirection (findIndex (\<lambda>f. id' f = ?l) files)
                 (findIndex (\<lambda>f. id' f = uk (hd sel)) files)"
      and "maybeMoveSelection sk uk allowMultiple shiftKey key targetElement focusedFile files sel s =
            getAndAddFile sk files sel ?g ?l
              (FileIdSelection_remove sk ?l (s\<lparr>selectionDirection := d\<rparr>))"
    then show thesis
      using that [of "FileIdSelection_remove sk ?l (s\<lparr>selectionDirection := d\<rparr>)"
          "[Remove ?l]"] assms(5)
      by (simp add: FileIdSelection_remove_def)
  qed
  from getAndAddFile_cases [of sk files sel ?g ?l s2]
  show ?thesis
  proof (elim disjE exE conjE)
    assume "getAndAddFile sk files sel ?g ?l s2 = s2"
    with s2 have "s' = s2" by simp
    with R c2 f2 show ?thesis
      by (intro exI [of _ R] exI [of _ "[]"]) simp
  next
    fix f
    assume g: "?g files ?l = Some f" and nin: "sk (id' f) \<notin> set sel"
      and "getAndAddFile sk files sel ?g ?l s2 = FileIdSelection_add sk (id' f) s2"
    with s2 have "s' = FileIdSelection_add sk (id' f) s2" by simp
    then have "calls s' = calls s @ R @ map Add [id' f]"
      and "fileIdSelection s' =
             (if R = [] then fileIdSelection s
              else filter (\<lambda>k. k \<noteq> sk ?l) (fileIdSelection s)) @ map sk [id' f]"
      using c2 f2 by (simp_all add: FileIdSelection_add_def)
    with R g nin show ?thesis
      by (intro exI [of _ R] exI [of _ "[id' f]"]) blast
  qed
qed

lemma move_effect:
  assumes "sel \<noteq> []" and "\<not> (shiftKey \<and> allowMultiple)"
    and "key = ''ArrowUp'' \<or> key = ''ArrowDown''"
    and "s' = maybeMoveSelection sk uk allowMultiple shiftKey key targetElement focusedFile files sel s"
    and "g = (if key = ''ArrowUp'' then getPreviousFile else getNextFile)"
    and "c = (if 1 < length sel then uk (last sel) else id' focusedFile)"
  shows "\<exists>F. (F = [] \<or> (\<exists>e. F = [Focus e])) \<and>
              (g files c = None \<and> calls s' = calls s @ F \<and>
               fileIdSelection s' = fileIdSelection s \<or>
               (\<exists>f. g files c = Some f \<and> calls s' = calls s @ F @ [Clear, Add (id' f)] \<and>
                    fileIdSelection s' = [sk (id' f)]))"
proof -
  from maybeMoveSelection_move [OF assms(1-3), where sk = sk and uk = uk and s = s
      and targetElement = targetElement and focusedFile = focusedFile and files = files]
  obtain s2 F where F: "F = [] \<or> (\<exists>e. F = [Focus e])" and c2: "calls s2 = calls s @ F"
    and f2: "fileIdSelection s2 = fileIdSelection s"
    and s2: "s' = getAndClearAndAddFile sk files g c s2"
    unfolding assms(4-6) by blast
  from getAndClearAndAddFile_cases [where g = g and files = files and c = c and sk = sk and s = s2]
  show ?thesis
  proof (elim disjE exE conjE)
    assume "g files c = None" and "getAndClearAndAddFile sk files g c s2 = s2"
    with s2 c2 f2 F show ?thesis by (intro exI [of _ F]) simp
  next
    fix f
    assume g: "g files c = Some f"
      and "getAndClearAndAddFile sk files g c s2 =
             FileIdSelection_add sk (id' f) (FileIdSelection_clear s2)"
    with s2 have "s' = FileIdSelection_add sk (id' f) (FileIdSelection_clear s2)" by simp
    then have "calls s' = calls s @ F @ [Clear, Add (id' f)]"
      and "fileIdSelection s' = [sk (id' f)]"
      using c2 by (simp_all add: FileIdSelection_add_def FileIdSelection_clear_def)
    with g F show ?thesis by (intro exI [of _ F]) blast
  qed
qed

lemma remove_last_keeps_first:
  assumes "getSelectionDirection
             (findIndex (\<lambda>f. id' f = uk (last sel)) files)
             (findIndex (\<lambda>f. id' f = uk (hd sel)) files) \<noteq> NoDirection"
    and "sel \<noteq> []"
  shows "filter (\<lambda>k. k \<noteq> sk (uk (last sel))) sel \<noteq> []"
proof
  assume "filter (\<lambda>k. k \<noteq> sk (uk (last sel))) sel = []"
  then have all: "\<forall>k\<in>set sel. k = sk (uk (last sel))"
    by (simp add: filter_empty_conv)
  from assms(2) have "hd sel \<in> set sel" "last sel \<in> set sel" by simp_all
  with all have "hd sel = last sel" by metis
  with assms(1) show False by (simp add: getSelectionDirection_def)
qed

subsection \<open>The lookups at a position\<close>

text \<open>
  C4. For an identifier that occurs in the file list, at (first) position \<open>i\<close>:
  \<open>getNextFile\<close> returns the item at position \<open>i + 1\<close> when that position is within
  bounds and undefined otherwise; \<open>getPreviousFile\<close> returns the item at position
  \<open>i - 1\<close> when \<open>i > 0\<close> and undefined otherwise.
\<close>

theorem adjacent_file_lookup:
  assumes "i < length files" and "id' (files ! i) = currentId"
    and "\<forall>j<i. id' (files ! j) \<noteq> currentId"
  shows "getNextFile files currentId =
           (if i + 1 < length files then Some (files ! (i + 1)) else None) \<and>
         getPreviousFile files currentId =
           (if 0 < i then Some (files ! (i - 1)) else None)"
  using getNextFile_at [OF assms] getPreviousFile_at [OF assms] by simp

theorem adjacent_file_lookup_witness:
  "getNextFile exampleFiles ''D'' = None \<and>
   getPreviousFile exampleFiles ''D'' = Some \<lparr>id' = ''C''\<rparr> \<and>
   getNextFile exampleFiles ''A'' = Some \<lparr>id' = ''B''\<rparr> \<and>
   getPreviousFile exampleFiles ''A'' = None"
proof -
  have "\<forall>j<3. id' (exampleFiles ! j) \<noteq> ''D''"
    by (simp add: exampleFiles_def less_Suc_eq numeral_3_eq_3)
  then show ?thesis
    using adjacent_file_lookup [of 3 exampleFiles "''D''"]
      adjacent_file_lookup [of 0 exampleFiles "''A''"]
    by (simp add: exampleFiles_def)
qed

subsection \<open>Calls that do nothing\<close>

text \<open>
  C7. A call with an empty \<open>selectedFileIds\<close> returns at once: the state it returns is
  the state it was given, so no \<open>add\<close>, \<open>remove\<close>, \<open>clear\<close> or \<open>focus\<close> call is made (the
  log of calls is a field of the state), and there is no error for it to raise.
\<close>

theorem empty_selection_noop:
  "maybeMoveSelection stringifyFileKey unstringifyFileKey allowMultiple shiftKey key
     targetElement focusedFile files [] s = s"
  by (simp add: maybeMoveSelection_def)

theorem empty_selection_noop_witness:
  "maybeMoveSelection id id True True ''ArrowDown'' exampleTarget \<lparr>id' = ''B''\<rparr> exampleFiles []
     (exampleState []) = exampleState []"
  using empty_selection_noop [where s = "exampleState []" and stringifyFileKey = id
      and unstringifyFileKey = id and allowMultiple = True and shiftKey = True
      and key = "''ArrowDown''" and targetElement = exampleTarget
      and focusedFile = "\<lparr>id' = ''B''\<rparr>" and files = exampleFiles]
  by simp

text \<open>
  C8. For a key other than \<open>ArrowUp\<close> and \<open>ArrowDown\<close>, the selection and the focused
  element after the call are those before it, and no call is made on the selection
  manager or on an element.
\<close>

theorem other_keys_ignored:
  assumes "key \<noteq> ''ArrowUp''" and "key \<noteq> ''ArrowDown''"
  shows "(let s' = maybeMoveSelection stringifyFileKey unstringifyFileKey allowMultiple shiftKey
                     key targetElement focusedFile files selectedFileIds s
          in fileIdSelection s' = fileIdSelection s \<and> focused s' = focused s \<and>
             calls s' = calls s \<and> newCalls s s' = [])"
  using assms by (simp add: maybeMoveSelection_def newCalls_def Let_def)

theorem other_keys_ignored_witness:
  "fileIdSelection (maybeMoveSelection id id True True ''Enter'' exampleTarget \<lparr>id' = ''B''\<rparr>
     exampleFiles [''B'', ''C''] (exampleState [''B'', ''C''])) = [''B'', ''C''] \<and>
   focused (maybeMoveSelection id id True True ''Enter'' exampleTarget \<lparr>id' = ''B''\<rparr>
     exampleFiles [''B'', ''C''] (exampleState [''B'', ''C''])) = Some 2"
  using other_keys_ignored [where key = "''Enter''" and s = "exampleState [''B'', ''C'']"
      and stringifyFileKey = id and unstringifyFileKey = id and allowMultiple = True
      and shiftKey = True and targetElement = exampleTarget and focusedFile = "\<lparr>id' = ''B''\<rparr>"
      and files = exampleFiles and selectedFileIds = "[''B'', ''C'']"]
  by (simp add: Let_def exampleState_def)

subsection \<open>Moving without extending\<close>

text \<open>
  C3 (as amended). \<open>ArrowDown\<close> without the extend modifier, with more than one
  identifier selected. When the last-selected identifier is in the file list, at (first)
  position \<open>i\<close>, the selection becomes the single key of the file at position \<open>i + 1\<close>,
  and is left as it was when \<open>i\<close> is the last position. When the last-selected
  identifier is not in the file list, the selection is left as it was.
\<close>

theorem arrow_down_collapses:
  assumes "key = ''ArrowDown''" and "\<not> shiftKey" and "1 < length selectedFileIds"
    and "lastFileId = unstringifyFileKey (last selectedFileIds)"
    and "s' = maybeMoveSelection stringifyFileKey unstringifyFileKey allowMultiple shiftKey key
                targetElement focusedFile files selectedFileIds s"
  shows "(i < length files \<and> id' (files ! i) = lastFileId \<and>
          (\<forall>j<i. id' (files ! j) \<noteq> lastFileId) \<longrightarrow>
            fileIdSelection s' =
              (if i + 1 < length files then [stringifyFileKey (id' (files ! (i + 1)))]
               else fileIdSelection s)) \<and>
         ((\<forall>f\<in>set files. id' f \<noteq> lastFileId) \<longrightarrow> fileIdSelection s' = fileIdSelection s)"
proof -
  from assms(3) have ne: "selectedFileIds \<noteq> []" by auto
  then have l: "selectedFileIds ! (length selectedFileIds - Suc 0) = last selectedFileIds"
    by (simp add: last_conv_nth)
  have sel: "fileIdSelection s' =
               (case getNextFile files lastFileId of
                  Some f \<Rightarrow> [stringifyFileKey (id' f)]
                | None \<Rightarrow> fileIdSelection s)"
    using assms ne by (simp add: navigator_defs Let_def l split: option.splits)
  have "fileIdSelection s' =
          (if i + 1 < length files then [stringifyFileKey (id' (files ! (i + 1)))]
           else fileIdSelection s)"
    if "i < length files" and "id' (files ! i) = lastFileId"
      and "\<forall>j<i. id' (files ! j) \<noteq> lastFileId"
    using getNextFile_at [OF that] by (simp add: sel)
  moreover have "fileIdSelection s' = fileIdSelection s"
    if "\<forall>f\<in>set files. id' f \<noteq> lastFileId"
    using getNextFile_absent [OF that] by (simp add: sel)
  ultimately show ?thesis by blast
qed

theorem arrow_down_collapses_witness:
  "fileIdSelection (maybeMoveSelection id id True False ''ArrowDown'' exampleTarget
     \<lparr>id' = ''C''\<rparr> exampleFiles [''A'', ''B'', ''C''] (exampleState [''A'', ''B'', ''C''])) = [''D''] \<and>
   fileIdSelection (maybeMoveSelection id id True False ''ArrowDown'' exampleTarget
     \<lparr>id' = ''D''\<rparr> exampleFiles [''A'', ''D''] (exampleState [''A'', ''D''])) = [''A'', ''D''] \<and>
   fileIdSelection (maybeMoveSelection id id True False ''ArrowDown'' exampleTarget
     \<lparr>id' = ''C''\<rparr> exampleFiles [''C'', ''Z''] (exampleState [''C'', ''Z''])) = [''C'', ''Z'']"
proof -
  have c: "\<forall>j<2. id' (exampleFiles ! j) \<noteq> ''C''"
    by (simp add: exampleFiles_def less_Suc_eq numeral_2_eq_2)
  have d: "\<forall>j<3. id' (exampleFiles ! j) \<noteq> ''D''"
    by (simp add: exampleFiles_def less_Suc_eq numeral_3_eq_3)
  have z: "\<forall>f\<in>set exampleFiles. id' f \<noteq> ''Z''"
    by (simp add: exampleFiles_def)
  have n: "length exampleFiles = 4" "id' (exampleFiles ! 2) = ''C''"
    "id' (exampleFiles ! 3) = ''D''" "id' (exampleFiles ! (2 + 1)) = ''D''"
    by (simp_all add: exampleFiles_def)
  have k: "''ArrowDown'' = ''ArrowDown''" and sh: "\<not> False" by simp_all
  have "fileIdSelection (maybeMoveSelection id id True False ''ArrowDown'' exampleTarget
     \<lparr>id' = ''C''\<rparr> exampleFiles [''A'', ''B'', ''C''] (exampleState [''A'', ''B'', ''C''])) = [''D'']"
    using arrow_down_collapses [where key = "''ArrowDown''" and shiftKey = False
        and selectedFileIds = "[''A'', ''B'', ''C'']" and lastFileId = "''C''"
        and unstringifyFileKey = id and stringifyFileKey = id and i = 2 and files = exampleFiles
        and allowMultiple = True and targetElement = exampleTarget
        and focusedFile = "\<lparr>id' = ''C''\<rparr>" and s = "exampleState [''A'', ''B'', ''C'']",
        OF k sh _ _ refl] c n
    by simp
  moreover
  have "fileIdSelection (maybeMoveSelection id id True False ''ArrowDown'' exampleTarget
     \<lparr>id' = ''D''\<rparr> exampleFiles [''A'', ''D''] (exampleState [''A'', ''D''])) = [''A'', ''D'']"
    using arrow_down_collapses [where key = "''ArrowDown''" and shiftKey = False
        and selectedFileIds = "[''A'', ''D'']" and lastFileId = "''D''"
        and unstringifyFileKey = id and stringifyFileKey = id and i = 3 and files = exampleFiles
        and allowMultiple = True and targetElement = exampleTarget
        and focusedFile = "\<lparr>id' = ''D''\<rparr>" and s = "exampleState [''A'', ''D'']",
        OF k sh _ _ refl] d n
    by (simp add: exampleState_def)
  moreover
  have "fileIdSelection (maybeMoveSelection id id True False ''ArrowDown'' exampleTarget
     \<lparr>id' = ''C''\<rparr> exampleFiles [''C'', ''Z''] (exampleState [''C'', ''Z''])) = [''C'', ''Z'']"
    using arrow_down_collapses [where key = "''ArrowDown''" and shiftKey = False
        and selectedFileIds = "[''C'', ''Z'']" and lastFileId = "''Z''"
        and unstringifyFileKey = id and stringifyFileKey = id and i = 0 and files = exampleFiles
        and allowMultiple = True and targetElement = exampleTarget
        and focusedFile = "\<lparr>id' = ''C''\<rparr>" and s = "exampleState [''C'', ''Z'']",
        OF k sh _ _ refl] z
    by (simp add: exampleState_def)
  ultimately show ?thesis by blast
qed

theorem arrow_down_collapses_counterexample:
  "length (fileIdSelection (maybeMoveSelection id id True False ''ArrowDown'' exampleTarget
     \<lparr>id' = ''C''\<rparr> exampleFiles [''C'', ''Z''] (exampleState [''C'', ''Z'']))) = 2 \<and>
   id' (last exampleFiles) \<noteq> ''Z''"
  by (simp add: navigator_defs example_defs getNextFile_def Let_def)

subsection \<open>The reversal example\<close>

text \<open>
  C1 (as amended). With files \<open>[A, B, C, D]\<close> and selection \<open>[B]\<close>, \<open>ArrowDown\<close> with the
  extend modifier adds C, giving \<open>[B, C]\<close>; a following \<open>ArrowUp\<close> with the extend
  modifier removes C and adds nothing (the file before C is B, which is selected
  already), so the selection is \<open>[B]\<close>. This holds for every stringification that
  \<open>unstringifyFileKey\<close> inverts.
\<close>

theorem reversal_example:
  assumes rt: "\<forall>x. unstringifyFileKey (stringifyFileKey x) = x"
    and fs: "map id' files = [''A'', ''B'', ''C'', ''D'']"
    and sel: "fileIdSelection s = [stringifyFileKey ''B'']"
  shows "(let s1 = maybeMoveSelection stringifyFileKey unstringifyFileKey True True ''ArrowDown''
                     targetElement focusedFile files (fileIdSelection s) s;
              s2 = maybeMoveSelection stringifyFileKey unstringifyFileKey True True ''ArrowUp''
                     targetElement' focusedFile' files (fileIdSelection s1) s1
          in fileIdSelection s1 = [stringifyFileKey ''B'', stringifyFileKey ''C''] \<and>
             newCalls s s1 = [Add ''C''] \<and>
             fileIdSelection s2 = [stringifyFileKey ''B''] \<and>
             newCalls s1 s2 = [Remove ''C''])"
proof -
  from fs obtain a b c d where files: "files = [a, b, c, d]"
    and ids: "id' a = ''A''" "id' b = ''B''" "id' c = ''C''" "id' d = ''D''"
    by (auto simp: map_eq_Cons_conv)
  have ne: "stringifyFileKey ''C'' \<noteq> stringifyFileKey ''B''"
    using roundtrip_inj [of unstringifyFileKey stringifyFileKey "''C''" "''B''"] rt by auto
  let ?s1 = "maybeMoveSelection stringifyFileKey unstringifyFileKey True True ''ArrowDown''
               targetElement focusedFile files (fileIdSelection s) s"
  have s1: "?s1 = s\<lparr>fileIdSelection := [stringifyFileKey ''B'', stringifyFileKey ''C''],
                     calls := calls s @ [Add ''C''], selectionDirection := Down\<rparr>"
    using rt ne by (simp add: navigator_defs getNextFile_def files ids sel Let_def)
  let ?s2 = "maybeMoveSelection stringifyFileKey unstringifyFileKey True True ''ArrowUp''
               targetElement' focusedFile' files (fileIdSelection ?s1) ?s1"
  have s2: "?s2 = s\<lparr>fileIdSelection := [stringifyFileKey ''B''],
                     calls := calls s @ [Add ''C'', Remove ''C''], selectionDirection := Down\<rparr>"
    unfolding s1 using rt ne
    by (simp add: navigator_defs getPreviousFile_def getSelectionDirection_def files ids Let_def)
  show ?thesis
    unfolding Let_def s2 unfolding s1 by (simp add: newCalls_def)
qed

theorem reversal_example_witness:
  "(let s1 = maybeMoveSelection id id True True ''ArrowDown'' exampleTarget \<lparr>id' = ''B''\<rparr>
               exampleFiles [''B''] (exampleState [''B'']);
        s2 = maybeMoveSelection id id True True ''ArrowUp'' exampleTarget \<lparr>id' = ''C''\<rparr>
               exampleFiles (fileIdSelection s1) s1
    in fileIdSelection s1 = [''B'', ''C''] \<and> fileIdSelection s2 = [''B''])"
proof -
  have rt: "\<forall>x::string. id (id x) = x" by simp
  have fs: "map id' exampleFiles = [''A'', ''B'', ''C'', ''D'']" by (simp add: exampleFiles_def)
  have sel: "fileIdSelection (exampleState [''B'']) = [id ''B'']" by (simp add: exampleState_def)
  have sel': "fileIdSelection (exampleState [''B'']) = [''B'']" by (simp add: exampleState_def)
  show ?thesis
    using reversal_example [where stringifyFileKey = id and unstringifyFileKey = id
        and files = exampleFiles and s = "exampleState [''B'']"
        and targetElement = exampleTarget and targetElement' = exampleTarget
        and focusedFile = "\<lparr>id' = ''B''\<rparr>" and focusedFile' = "\<lparr>id' = ''C''\<rparr>",
        OF rt fs sel]
    by (auto simp: Let_def sel')
qed

theorem reversal_example_counterexample:
  "fileIdSelection
     (maybeMoveSelection id id True True ''ArrowUp'' exampleTarget \<lparr>id' = ''C''\<rparr> exampleFiles
        [''B'', ''C'']
        (maybeMoveSelection id id True True ''ArrowDown'' exampleTarget \<lparr>id' = ''B''\<rparr>
           exampleFiles [''B''] (exampleState [''B''])))
   \<noteq> [''B'', ''A'']"
  by (simp add: navigator_defs example_defs getNextFile_def getPreviousFile_def
      getSelectionDirection_def Let_def)

subsection \<open>Extending the selection\<close>

text \<open>
  C2. With the extend modifier held, multi-select allowed and more than one identifier
  selected, an arrow key that opposes the current selection direction (\<open>ArrowUp\<close> while
  the direction is down, \<open>ArrowDown\<close> while it is up) first calls \<open>remove\<close> on the
  last-selected identifier; an \<open>add\<close>, if there is one, comes after it. When the
  selection manager holds \<open>selectedFileIds\<close> and the last key is the key of the
  identifier it decodes to, that key is no longer selected after the call.
\<close>

theorem reversing_removes_last_first:
  assumes "shiftKey" and "allowMultiple" and "1 < length selectedFileIds"
    and "lastFileId = unstringifyFileKey (last selectedFileIds)"
    and "firstFileId = unstringifyFileKey (hd selectedFileIds)"
    and "dir = getSelectionDirection (findIndex (\<lambda>f. id' f = lastFileId) files)
                 (findIndex (\<lambda>f. id' f = firstFileId) files)"
    and "key = ''ArrowUp'' \<and> dir = Down \<or> key = ''ArrowDown'' \<and> dir = Up"
    and "s' = maybeMoveSelection stringifyFileKey unstringifyFileKey allowMultiple shiftKey key
                targetElement focusedFile files selectedFileIds s"
  shows "(newCalls s s' = [Remove lastFileId] \<or>
          (\<exists>x. newCalls s s' = [Remove lastFileId, Add x])) \<and>
         (fileIdSelection s = selectedFileIds \<and>
          stringifyFileKey lastFileId = last selectedFileIds \<longrightarrow>
            last selectedFileIds \<notin> set (fileIdSelection s'))"
proof -
  let ?g = "if key = ''ArrowUp'' then getPreviousFile else getNextFile"
  let ?r = "FileIdSelection_remove stringifyFileKey lastFileId (s\<lparr>selectionDirection := dir\<rparr>)"
  have d: "getSelectionDirection
             (findIndex (\<lambda>f. id' f = unstringifyFileKey (last selectedFileIds)) files)
             (findIndex (\<lambda>f. id' f = unstringifyFileKey (hd selectedFileIds)) files) = dir"
    using assms(4-6) by simp
  have s': "s' = getAndAddFile stringifyFileKey files selectedFileIds ?g lastFileId ?r"
    unfolding assms(8) assms(4) by (rule maybeMoveSelection_reverse [OF assms(1-3) d assms(7)])
  from assms(3) have "selectedFileIds \<noteq> []" by auto
  then have lin: "last selectedFileIds \<in> set selectedFileIds" by simp
  have r_calls: "calls ?r = calls s @ [Remove lastFileId]"
    and r_sel: "fileIdSelection ?r =
                  filter (\<lambda>k. k \<noteq> stringifyFileKey lastFileId) (fileIdSelection s)"
    by (simp_all add: FileIdSelection_remove_def)
  from getAndAddFile_cases [of stringifyFileKey files selectedFileIds ?g lastFileId ?r]
  show ?thesis
  proof
    assume "getAndAddFile stringifyFileKey files selectedFileIds ?g lastFileId ?r = ?r"
    with s' have "s' = ?r" by simp
    then show ?thesis using r_calls r_sel by (simp add: newCalls_def)
  next
    assume "\<exists>f. ?g files lastFileId = Some f \<and>
                stringifyFileKey (id' f) \<notin> set selectedFileIds \<and>
                getAndAddFile stringifyFileKey files selectedFileIds ?g lastFileId ?r =
                  FileIdSelection_add stringifyFileKey (id' f) ?r"
    then obtain f where "?g files lastFileId = Some f"
      and nin: "stringifyFileKey (id' f) \<notin> set selectedFileIds"
      and e: "getAndAddFile stringifyFileKey files selectedFileIds ?g lastFileId ?r =
                FileIdSelection_add stringifyFileKey (id' f) ?r"
      by blast
    from s' e have eq: "s' = FileIdSelection_add stringifyFileKey (id' f) ?r" by simp
    have c: "calls s' = calls s @ [Remove lastFileId, Add (id' f)]"
      and sl: "fileIdSelection s' =
                 filter (\<lambda>k. k \<noteq> stringifyFileKey lastFileId) (fileIdSelection s) @
                 [stringifyFileKey (id' f)]"
      unfolding eq by (simp_all add: FileIdSelection_add_def r_calls r_sel)
    have "newCalls s s' = [Remove lastFileId, Add (id' f)]"
      by (simp add: newCalls_def c)
    moreover have "last selectedFileIds \<noteq> stringifyFileKey (id' f)"
      using nin lin by auto
    ultimately show ?thesis
      by (auto simp: sl)
  qed
qed

theorem reversing_removes_last_first_witness:
  "newCalls (exampleState [''B'', ''C''])
     (maybeMoveSelection id id True True ''ArrowUp'' exampleTarget \<lparr>id' = ''C''\<rparr> exampleFiles
        [''B'', ''C''] (exampleState [''B'', ''C''])) = [Remove ''C''] \<and>
   ''C'' \<notin> set (fileIdSelection
     (maybeMoveSelection id id True True ''ArrowUp'' exampleTarget \<lparr>id' = ''C''\<rparr> exampleFiles
        [''B'', ''C''] (exampleState [''B'', ''C''])))"
proof -
  have len: "1 < length [''B'', ''C'']" by simp
  have dir: "Down = getSelectionDirection (findIndex (\<lambda>f. id' f = ''C'') exampleFiles)
                      (findIndex (\<lambda>f. id' f = ''B'') exampleFiles)"
    by (simp add: getSelectionDirection_def exampleFiles_def)
  have key: "''ArrowUp'' = ''ArrowUp'' \<and> Down = Down \<or> ''ArrowUp'' = ''ArrowDown'' \<and> Down = Up"
    by simp
  have calls: "newCalls (exampleState [''B'', ''C''])
     (maybeMoveSelection id id True True ''ArrowUp'' exampleTarget \<lparr>id' = ''C''\<rparr> exampleFiles
        [''B'', ''C''] (exampleState [''B'', ''C''])) = [Remove ''C'']"
    by (simp add: navigator_defs example_defs getPreviousFile_def getSelectionDirection_def Let_def)
  show ?thesis
    using reversing_removes_last_first [where shiftKey = True and allowMultiple = True
        and selectedFileIds = "[''B'', ''C'']" and lastFileId = "''C''" and firstFileId = "''B''"
        and unstringifyFileKey = id and stringifyFileKey = id and dir = Down
        and files = exampleFiles and key = "''ArrowUp''" and targetElement = exampleTarget
        and focusedFile = "\<lparr>id' = ''C''\<rparr>" and s = "exampleState [''B'', ''C'']",
        OF TrueI TrueI len _ _ dir key refl]
      calls
    by (simp add: exampleState_def)
qed

text \<open>
  C5 (as amended). With exactly one identifier selected, \<open>ArrowUp\<close> with the extend
  modifier (and multi-select allowed) sets the selection direction to up; when the
  selected file has a previous file in the list, that file is added and the selection
  grows to size 2; when it has none (it is the first file, or it is not in the list),
  the selection is left as it was. This holds for every stringification that
  \<open>unstringifyFileKey\<close> inverts.
\<close>

theorem single_selection_extend_up:
  assumes "\<forall>x. unstringifyFileKey (stringifyFileKey x) = x"
    and "fileIdSelection s = [stringifyFileKey selectedId]"
    and "s' = maybeMoveSelection stringifyFileKey unstringifyFileKey True True ''ArrowUp''
                targetElement focusedFile files (fileIdSelection s) s"
  shows "selectionDirection s' = Up \<and>
         (case getPreviousFile files selectedId of
            Some f \<Rightarrow> fileIdSelection s' = [stringifyFileKey selectedId, stringifyFileKey (id' f)]
          | None \<Rightarrow> fileIdSelection s' = [stringifyFileKey selectedId])"
proof (cases "getPreviousFile files selectedId")
  case None
  then show ?thesis
    using assms by (simp add: maybeMoveSelection_def getAndAddFile_def Let_def)
next
  case (Some f)
  then have "id' f \<noteq> selectedId" by (rule getPreviousFile_other)
  then have "stringifyFileKey (id' f) \<noteq> stringifyFileKey selectedId"
    using roundtrip_inj [of unstringifyFileKey stringifyFileKey "id' f" selectedId] assms(1)
    by blast
  with Some show ?thesis
    using assms
    by (simp add: maybeMoveSelection_def getAndAddFile_def FileIdSelection_add_def Let_def)
qed

theorem single_selection_extend_up_witness:
  "selectionDirection (maybeMoveSelection id id True True ''ArrowUp'' exampleTarget
     \<lparr>id' = ''B''\<rparr> exampleFiles [''B''] (exampleState [''B''])) = Up \<and>
   fileIdSelection (maybeMoveSelection id id True True ''ArrowUp'' exampleTarget
     \<lparr>id' = ''B''\<rparr> exampleFiles [''B''] (exampleState [''B''])) = [''B'', ''A'']"
proof -
  have rt: "\<forall>x::string. id (id x) = x" by simp
  have sel: "fileIdSelection (exampleState [''B'']) = [id ''B'']" by (simp add: exampleState_def)
  have sel': "fileIdSelection (exampleState [''B'']) = [''B'']" by (simp add: exampleState_def)
  have prev: "getPreviousFile exampleFiles ''B'' = Some \<lparr>id' = ''A''\<rparr>"
    by (simp add: getPreviousFile_def exampleFiles_def)
  show ?thesis
    using single_selection_extend_up [where stringifyFileKey = id and unstringifyFileKey = id
        and s = "exampleState [''B'']" and selectedId = "''B''" and files = exampleFiles
        and targetElement = exampleTarget and focusedFile = "\<lparr>id' = ''B''\<rparr>",
        OF rt sel refl]
    by (simp add: sel' prev)
qed

theorem single_selection_extend_up_counterexample:
  "length (fileIdSelection (maybeMoveSelection id id True True ''ArrowUp'' exampleTarget
     \<lparr>id' = ''A''\<rparr> exampleFiles [''A''] (exampleState [''A'']))) \<noteq> 2"
  by (simp add: navigator_defs example_defs getPreviousFile_def Let_def)

text \<open>
  C6. A call made on a selection without duplicates (the selection manager holds
  \<open>selectedFileIds\<close>) leaves a selection without duplicates, whatever the key and the
  modifier; and when the selection is being extended, no file whose key is in
  \<open>selectedFileIds\<close> is added.
\<close>

theorem extending_keeps_distinct:
  assumes "distinct (fileIdSelection s)"
    and "s' = maybeMoveSelection stringifyFileKey unstringifyFileKey allowMultiple shiftKey key
                targetElement focusedFile files (fileIdSelection s) s"
  shows "distinct (fileIdSelection s') \<and>
         (shiftKey \<and> allowMultiple \<longrightarrow>
            (\<forall>x. Add x \<in> set (newCalls s s') \<longrightarrow> stringifyFileKey x \<notin> set (fileIdSelection s)))"
proof (cases "fileIdSelection s = [] \<or> (key \<noteq> ''ArrowUp'' \<and> key \<noteq> ''ArrowDown'')")
  case True
  then have "fileIdSelection s' = fileIdSelection s \<and> calls s' = calls s"
    using assms(2) by (auto simp: maybeMoveSelection_def Let_def)
  with assms(1) show ?thesis by (simp add: newCalls_def)
next
  case False
  then have ne: "fileIdSelection s \<noteq> []" and k: "key = ''ArrowUp'' \<or> key = ''ArrowDown''"
    by auto
  show ?thesis
  proof (cases "shiftKey \<and> allowMultiple")
    case True
    then have sh: shiftKey and al: allowMultiple by simp_all
    from extend_effect [OF ne sh al k assms(2)]
    obtain R A where A: "A = [] \<or> (\<exists>x. stringifyFileKey x \<notin> set (fileIdSelection s) \<and> A = [x])"
      and c: "calls s' = calls s @ R @ map Add A"
      and R: "R = [] \<or> (\<exists>l. R = [Remove l])"
      and f: "fileIdSelection s' =
                (if R = [] then fileIdSelection s
                 else filter (\<lambda>k. k \<noteq> stringifyFileKey
                                       (unstringifyFileKey (last (fileIdSelection s))))
                        (fileIdSelection s)) @ map stringifyFileKey A"
      by blast
    have "distinct (fileIdSelection s')"
      unfolding f using A assms(1) by auto
    moreover have "\<forall>x. Add x \<in> set (newCalls s s') \<longrightarrow> stringifyFileKey x \<notin> set (fileIdSelection s)"
      using A R by (auto simp: newCalls_def c)
    ultimately show ?thesis by simp
  next
    case False
    from move_effect [OF ne False k assms(2) refl refl]
    have "fileIdSelection s' = fileIdSelection s \<or> (\<exists>x. fileIdSelection s' = [x])"
      by blast
    with assms(1) False show ?thesis by auto
  qed
qed

theorem extending_keeps_distinct_witness:
  "distinct (fileIdSelection
     (maybeMoveSelection id id True True ''ArrowDown'' exampleTarget \<lparr>id' = ''C''\<rparr> exampleFiles
        [''C'', ''B''] (exampleState [''C'', ''B''])))"
proof -
  have d: "distinct (fileIdSelection (exampleState [''C'', ''B'']))"
    by (simp add: exampleState_def)
  have sel: "fileIdSelection (exampleState [''C'', ''B'']) = [''C'', ''B'']"
    by (simp add: exampleState_def)
  show ?thesis
    using extending_keeps_distinct [OF d refl, where stringifyFileKey = id
        and unstringifyFileKey = id and allowMultiple = True and shiftKey = True
        and key = "''ArrowDown''" and targetElement = exampleTarget
        and focusedFile = "\<lparr>id' = ''C''\<rparr>" and files = exampleFiles]
    by (simp add: sel)
qed

subsection \<open>The selection is never emptied\<close>

text \<open>
  C9. A call made on a non-empty selection (the selection manager holds
  \<open>selectedFileIds\<close>) leaves a non-empty selection; every \<open>clear()\<close> it makes is
  immediately followed by the \<open>add\<close> of a file of the list; and it calls \<open>remove\<close> only
  when more than one identifier is selected.
\<close>

theorem selection_stays_nonempty:
  assumes "fileIdSelection s \<noteq> []"
    and "s' = maybeMoveSelection stringifyFileKey unstringifyFileKey allowMultiple shiftKey key
                targetElement focusedFile files (fileIdSelection s) s"
  shows "fileIdSelection s' \<noteq> [] \<and>
         clearOnlyBeforeAdd (map id' files) (newCalls s s') \<and>
         (\<forall>x. Remove x \<in> set (newCalls s s') \<longrightarrow> 1 < length (fileIdSelection s))"
proof (cases "key = ''ArrowUp'' \<or> key = ''ArrowDown''")
  case False
  then have "fileIdSelection s' = fileIdSelection s \<and> calls s' = calls s"
    using assms(2) by (auto simp: maybeMoveSelection_def Let_def)
  with assms(1) show ?thesis by (simp add: newCalls_def)
next
  case k: True
  show ?thesis
  proof (cases "shiftKey \<and> allowMultiple")
    case True
    then have sh: shiftKey and al: allowMultiple by simp_all
    let ?keep = "filter (\<lambda>k. k \<noteq> stringifyFileKey (unstringifyFileKey (last (fileIdSelection s))))
                   (fileIdSelection s)"
    from extend_effect [OF assms(1) sh al k assms(2)]
    obtain R A where R: "R = [] \<or>
          R = [Remove (unstringifyFileKey (last (fileIdSelection s)))] \<and>
          1 < length (fileIdSelection s) \<and>
          getSelectionDirection
            (findIndex (\<lambda>f. id' f = unstringifyFileKey (last (fileIdSelection s))) files)
            (findIndex (\<lambda>f. id' f = unstringifyFileKey (hd (fileIdSelection s))) files)
          \<noteq> NoDirection"
      and A: "A = [] \<or> (\<exists>x. A = [x])"
      and c: "calls s' = calls s @ R @ map Add A"
      and f: "fileIdSelection s' =
                (if R = [] then fileIdSelection s else ?keep) @ map stringifyFileKey A"
      by blast
    have "fileIdSelection s' \<noteq> []"
      unfolding f using R assms(1)
        remove_last_keeps_first [of unstringifyFileKey "fileIdSelection s" files stringifyFileKey]
      by auto
    moreover have "clearOnlyBeforeAdd (map id' files) (newCalls s s')"
      using R A by (auto simp: newCalls_def c)
    moreover have "\<forall>x. Remove x \<in> set (newCalls s s') \<longrightarrow> 1 < length (fileIdSelection s)"
      using R A by (auto simp: newCalls_def c)
    ultimately show ?thesis by simp
  next
    case False
    let ?g = "if key = ''ArrowUp'' then getPreviousFile else getNextFile"
    from move_effect [OF assms(1) False k assms(2) refl refl]
    obtain F c where F: "F = [] \<or> (\<exists>e. F = [Focus e])"
      and o: "calls s' = calls s @ F \<and> fileIdSelection s' = fileIdSelection s \<or>
              (\<exists>f. ?g files c = Some f \<and> calls s' = calls s @ F @ [Clear, Add (id' f)] \<and>
                   fileIdSelection s' = [stringifyFileKey (id' f)])"
      by blast
    from o show ?thesis
    proof (elim disjE exE conjE)
      assume "calls s' = calls s @ F" and "fileIdSelection s' = fileIdSelection s"
      with F assms(1) show ?thesis by (auto simp: newCalls_def)
    next
      fix f
      assume g: "?g files c = Some f"
        and c: "calls s' = calls s @ F @ [Clear, Add (id' f)]"
        and f: "fileIdSelection s' = [stringifyFileKey (id' f)]"
      from g have "f \<in> set files"
        using getNextFile_mem getPreviousFile_mem by (auto split: if_splits)
      with F c f show ?thesis by (auto simp: newCalls_def)
    qed
  qed
qed

theorem selection_stays_nonempty_witness:
  "fileIdSelection
     (maybeMoveSelection id id True True ''ArrowUp'' exampleTarget \<lparr>id' = ''C''\<rparr> exampleFiles
        [''B'', ''C''] (exampleState [''B'', ''C''])) \<noteq> []"
proof -
  have ne: "fileIdSelection (exampleState [''B'', ''C'']) \<noteq> []"
    by (simp add: exampleState_def)
  have sel: "fileIdSelection (exampleState [''B'', ''C'']) = [''B'', ''C'']"
    by (simp add: exampleState_def)
  show ?thesis
    using selection_stays_nonempty [OF ne refl, where stringifyFileKey = id
        and unstringifyFileKey = id and allowMultiple = True and shiftKey = True
        and key = "''ArrowUp''" and targetElement = exampleTarget
        and focusedFile = "\<lparr>id' = ''C''\<rparr>" and files = exampleFiles]
    by (simp add: sel)
qed

subsection \<open>Identifiers that are not in the file list\<close>

text \<open>
  C10 (as amended). For an identifier that does not occur in the file list,
  \<open>getNextFile\<close> and \<open>getPreviousFile\<close> both return undefined; so a call whose
  last-selected identifier is absent from the list makes no \<open>add\<close> whenever the lookup
  is made from the last-selected identifier, that is, when the selection is being
  extended or more than one identifier is selected.
\<close>

theorem stale_identifier_no_add:
  assumes "\<forall>f\<in>set files. id' f \<noteq> currentId"
  shows "getNextFile files currentId = None \<and> getPreviousFile files currentId = None \<and>
         (selectedFileIds \<noteq> [] \<and> unstringifyFileKey (last selectedFileIds) = currentId \<and>
          (shiftKey \<and> allowMultiple \<or> 1 < length selectedFileIds) \<longrightarrow>
            (\<forall>x. Add x \<notin> set (newCalls s
                   (maybeMoveSelection stringifyFileKey unstringifyFileKey allowMultiple shiftKey
                      key targetElement focusedFile files selectedFileIds s))))"
proof -
  let ?s' = "maybeMoveSelection stringifyFileKey unstringifyFileKey allowMultiple shiftKey
               key targetElement focusedFile files selectedFileIds s"
  let ?g = "if key = ''ArrowUp'' then getPreviousFile else getNextFile"
  have nx: "getNextFile files currentId = None" and pv: "getPreviousFile files currentId = None"
    using assms by (simp_all add: getNextFile_absent getPreviousFile_absent)
  then have g: "?g files currentId = None" by simp
  have "\<forall>x. Add x \<notin> set (newCalls s ?s')"
    if ne: "selectedFileIds \<noteq> []"
      and l: "unstringifyFileKey (last selectedFileIds) = currentId"
      and b: "shiftKey \<and> allowMultiple \<or> 1 < length selectedFileIds"
  proof (cases "key = ''ArrowUp'' \<or> key = ''ArrowDown''")
    case False
    then have "calls ?s' = calls s"
      by (auto simp: maybeMoveSelection_def Let_def)
    then show ?thesis by (simp add: newCalls_def)
  next
    case k: True
    show ?thesis
    proof (cases "shiftKey \<and> allowMultiple")
      case True
      then have sh: shiftKey and al: allowMultiple by simp_all
      from extend_effect [OF ne sh al k refl, where sk = stringifyFileKey
          and uk = unstringifyFileKey and s = s and targetElement = targetElement
          and focusedFile = focusedFile and files = files]
      obtain R A where R: "R = [] \<or> (\<exists>r. R = [Remove r])"
        and A: "A = [] \<or> (\<exists>f. ?g files currentId = Some f \<and> A = [id' f])"
        and c: "calls ?s' = calls s @ R @ map Add A"
        unfolding l by blast
      from A g have "A = []" by auto
      with R c show ?thesis by (auto simp: newCalls_def)
    next
      case False
      with b have gt: "1 < length selectedFileIds" by blast
      from move_effect [OF ne False k refl refl refl, where sk = stringifyFileKey
          and uk = unstringifyFileKey and s = s and targetElement = targetElement
          and focusedFile = focusedFile and files = files]
      obtain F where F: "F = [] \<or> (\<exists>e. F = [Focus e])"
        and o: "calls ?s' = calls s @ F \<or> (\<exists>f. ?g files currentId = Some f)"
        using gt l by auto
      from o g have "calls ?s' = calls s @ F" by auto
      with F show ?thesis by (auto simp: newCalls_def)
    qed
  qed
  with nx pv show ?thesis by blast
qed

theorem stale_identifier_no_add_witness:
  "getNextFile exampleFiles ''Z'' = None \<and> getPreviousFile exampleFiles ''Z'' = None \<and>
   newCalls (exampleState [''A'', ''Z''])
     (maybeMoveSelection id id True True ''ArrowDown'' exampleTarget \<lparr>id' = ''A''\<rparr> exampleFiles
        [''A'', ''Z''] (exampleState [''A'', ''Z''])) = [Remove ''Z'']"
proof -
  have stale: "\<forall>f\<in>set exampleFiles. id' f \<noteq> ''Z''" by (simp add: exampleFiles_def)
  have "newCalls (exampleState [''A'', ''Z''])
     (maybeMoveSelection id id True True ''ArrowDown'' exampleTarget \<lparr>id' = ''A''\<rparr> exampleFiles
        [''A'', ''Z''] (exampleState [''A'', ''Z''])) = [Remove ''Z'']"
    by (simp add: navigator_defs example_defs getNextFile_def getSelectionDirection_def Let_def)
  then show ?thesis
    using stale_identifier_no_add [OF stale, where selectedFileIds = "[''A'', ''Z'']"
        and unstringifyFileKey = id and stringifyFileKey = id and shiftKey = True
        and allowMultiple = True and key = "''ArrowDown''" and targetElement = exampleTarget
        and focusedFile = "\<lparr>id' = ''A''\<rparr>" and s = "exampleState [''A'', ''Z'']"]
    by simp
qed

theorem stale_identifier_no_add_counterexample:
  "''Z'' \<notin> set (map id' exampleFiles) \<and>
   newCalls (exampleState [''Z''])
     (maybeMoveSelection id id True False ''ArrowDown'' exampleTarget \<lparr>id' = ''A''\<rparr> exampleFiles
        [''Z''] (exampleState [''Z''])) = [Focus 3, Clear, Add ''B'']"
  by (simp add: navigator_defs example_defs getNextFile_def Let_def)

end
